theory Spec2Isabelle
  imports Complex_Main
begin

section \<open>Numbers of the engine\<close>

text \<open>
  Every number of \<^verbatim>\<open>app.py\<close> is a float64 held in a pandas Series or a numpy
  array. The model keeps the special values of float64 apart from the finite ones: a
  value is NaN, one of the two infinities, the negative zero, or a finite number, which
  is a real here; the real 0 is the positive zero. Rounding is not modelled.
  NaN is what pandas treats as a missing entry: \<^verbatim>\<open>dropna\<close> removes it, every
  comparison with it is false, and every arithmetic operation hands it on.
\<close>

datatype fl = NaN | NInf | NZero | Fin real | PInf

fun isnan :: "fl \<Rightarrow> bool" where
  "isnan NaN = True"
| "isnan _ = False"

fun isfinite :: "fl \<Rightarrow> bool" where
  "isfinite (Fin _) = True"
| "isfinite NZero = True"
| "isfinite _ = False"

text \<open>The infinity and the zero of a given sign (\<open>True\<close> is the positive one).\<close>

fun inf_of :: "bool \<Rightarrow> fl" where
  "inf_of True = PInf"
| "inf_of False = NInf"

fun zero_of :: "bool \<Rightarrow> fl" where
  "zero_of True = Fin 0"
| "zero_of False = NZero"

fun fneg :: "fl \<Rightarrow> fl" where
  "fneg NaN = NaN"
| "fneg NInf = PInf"
| "fneg NZero = Fin 0"
| "fneg (Fin a) = (if a = 0 then NZero else Fin (- a))"
| "fneg PInf = NInf"

text \<open>
  Addition. A sum that is exactly zero is the positive zero, unless both terms are the
  negative zero.
\<close>

fun fadd :: "fl \<Rightarrow> fl \<Rightarrow> fl" where
  "fadd (Fin a) (Fin b) = Fin (a + b)"
| "fadd (Fin a) NZero = Fin a"
| "fadd NZero (Fin b) = Fin b"
| "fadd NZero NZero = NZero"
| "fadd (Fin a) PInf = PInf"
| "fadd (Fin a) NInf = NInf"
| "fadd NZero PInf = PInf"
| "fadd NZero NInf = NInf"
| "fadd PInf (Fin b) = PInf"
| "fadd NInf (Fin b) = NInf"
| "fadd PInf NZero = PInf"
| "fadd NInf NZero = NInf"
| "fadd PInf PInf = PInf"
| "fadd NInf NInf = NInf"
| "fadd PInf NInf = NaN"
| "fadd NInf PInf = NaN"
| "fadd NaN _ = NaN"
| "fadd _ NaN = NaN"

definition fsub :: "fl \<Rightarrow> fl \<Rightarrow> fl" where
  "fsub a b = fadd a (fneg b)"

text \<open>
  Multiplication. The sign of the product is that of the signs of the factors, also
  when the product is a zero; an infinity times a zero is NaN.
\<close>

fun fmul :: "fl \<Rightarrow> fl \<Rightarrow> fl" where
  "fmul (Fin a) (Fin b) = (if a * b = 0 then zero_of ((a < 0) = (b < 0)) else Fin (a * b))"
| "fmul (Fin a) NZero = zero_of (a < 0)"
| "fmul NZero (Fin b) = zero_of (b < 0)"
| "fmul NZero NZero = Fin 0"
| "fmul (Fin a) PInf = (if a = 0 then NaN else inf_of (0 < a))"
| "fmul (Fin a) NInf = (if a = 0 then NaN else inf_of (a < 0))"
| "fmul PInf (Fin b) = (if b = 0 then NaN else inf_of (0 < b))"
| "fmul NInf (Fin b) = (if b = 0 then NaN else inf_of (b < 0))"
| "fmul NZero PInf = NaN"
| "fmul NZero NInf = NaN"
| "fmul PInf NZero = NaN"
| "fmul NInf NZero = NaN"
| "fmul PInf PInf = PInf"
| "fmul NInf NInf = PInf"
| "fmul PInf NInf = NInf"
| "fmul NInf PInf = NInf"
| "fmul NaN _ = NaN"
| "fmul _ NaN = NaN"

text \<open>
  Division as numpy does it: a non-zero number over a zero is an infinity, with the
  sign of the dividend for the positive zero and the opposite sign for the negative
  zero; a zero over a zero and an infinity over an infinity are NaN; a zero quotient
  has the sign of the signs of its operands. Nothing is raised.
\<close>

fun fdiv :: "fl \<Rightarrow> fl \<Rightarrow> fl" where
  "fdiv (Fin a) (Fin b) =
     (if b \<noteq> 0 then (if a = 0 then zero_of (0 < b) else Fin (a / b))
      else if a = 0 then NaN else inf_of (0 < a))"
| "fdiv (Fin a) NZero = (if a = 0 then NaN else inf_of (a < 0))"
| "fdiv NZero (Fin b) = (if b = 0 then NaN else zero_of (b < 0))"
| "fdiv NZero NZero = NaN"
| "fdiv (Fin a) PInf = zero_of (0 \<le> a)"
| "fdiv (Fin a) NInf = zero_of (a < 0)"
| "fdiv NZero PInf = NZero"
| "fdiv NZero NInf = Fin 0"
| "fdiv PInf (Fin b) = inf_of (0 \<le> b)"
| "fdiv NInf (Fin b) = inf_of (b < 0)"
| "fdiv PInf NZero = NInf"
| "fdiv NInf NZero = PInf"
| "fdiv PInf PInf = NaN"
| "fdiv PInf NInf = NaN"
| "fdiv NInf PInf = NaN"
| "fdiv NInf NInf = NaN"
| "fdiv NaN _ = NaN"
| "fdiv _ NaN = NaN"

text \<open>The comparisons \<^verbatim>\<open><\<close> and \<^verbatim>\<open><=\<close>: false as soon as one side is NaN; the two
  zeros compare equal.\<close>

fun flt :: "fl \<Rightarrow> fl \<Rightarrow> bool" where
  "flt (Fin a) (Fin b) = (a < b)"
| "flt (Fin a) NZero = (a < 0)"
| "flt NZero (Fin b) = (0 < b)"
| "flt (Fin a) PInf = True"
| "flt NZero PInf = True"
| "flt NInf (Fin b) = True"
| "flt NInf NZero = True"
| "flt NInf PInf = True"
| "flt _ _ = False"

fun fle :: "fl \<Rightarrow> fl \<Rightarrow> bool" where
  "fle (Fin a) (Fin b) = (a \<le> b)"
| "fle (Fin a) NZero = (a \<le> 0)"
| "fle NZero (Fin b) = (0 \<le> b)"
| "fle NZero NZero = True"
| "fle (Fin a) PInf = True"
| "fle NZero PInf = True"
| "fle NInf (Fin b) = True"
| "fle NInf NZero = True"
| "fle NInf PInf = True"
| "fle NInf NInf = True"
| "fle PInf PInf = True"
| "fle _ _ = False"

section \<open>Series\<close>

text \<open>
  A pandas Series is a list of rows, each a label of the index (the date of the row)
  with its value. Operations that work by position keep the labels where they are.
\<close>

type_synonym 'i series = "('i \<times> fl) list"

definition labels :: "'i series \<Rightarrow> 'i list" where
  "labels s = map fst s"

definition vals :: "'i series \<Rightarrow> fl list" where
  "vals s = map snd s"

text \<open>A series of prices that are finite numbers.\<close>

definition fin_series :: "('i \<times> real) list \<Rightarrow> 'i series" where
  "fin_series s = map (\<lambda>(i, p). (i, Fin p)) s"

text \<open>\<^verbatim>\<open>Series.dropna()\<close>: the rows whose value is not NaN, in order.\<close>

definition dropna :: "'i series \<Rightarrow> 'i series" where
  "dropna s = filter (\<lambda>(i, v). \<not> isnan v) s"

text \<open>\<^verbatim>\<open>shift(1)\<close> on the values: NaN enters at the front, the last value leaves.\<close>

definition shift1 :: "fl list \<Rightarrow> fl list" where
  "shift1 vs = take (length vs) (NaN # vs)"

text \<open>
  \<^verbatim>\<open>Series.pct_change()\<close>: \<^verbatim>\<open>data / data.shift(1) - 1\<close>, row by row. (The
  forward fill of older pandas changes nothing on a series without NaN, which is what
  line 83 leaves.)
\<close>

definition pct_change :: "'i series \<Rightarrow> 'i series" where
  "pct_change s =
     zip (labels s) (map2 (\<lambda>p q. fsub (fdiv p q) (Fin 1)) (vals s) (shift1 (vals s)))"

section \<open>Core risk metrics (lines 94 to 100)\<close>

text \<open>Line 94: \<^verbatim>\<open>returns = price_series.pct_change().dropna()\<close>.\<close>

definition returns :: "'i series \<Rightarrow> 'i series" where
  "returns price_series = dropna (pct_change price_series)"


text \<open>Sums, \<^verbatim>\<open>nanmean\<close> and \<^verbatim>\<open>nanstd\<close> (ddof 1) as pandas reduces a float column.\<close>

definition fsum :: "fl list \<Rightarrow> fl" where
  "fsum vs = foldl fadd (Fin 0) vs"

definition notna :: "fl list \<Rightarrow> fl list" where
  "notna vs = filter (\<lambda>v. \<not> isnan v) vs"

fun fsqrt :: "fl \<Rightarrow> fl" where
  "fsqrt (Fin a) = (if a < 0 then NaN else Fin (sqrt a))"
| "fsqrt NZero = NZero"
| "fsqrt PInf = PInf"
| "fsqrt _ = NaN"

fun fpow :: "fl \<Rightarrow> nat \<Rightarrow> fl" where
  "fpow (Fin a) n = Fin (a ^ n)"
| "fpow x 0 = Fin 1"
| "fpow NZero n = zero_of (even n)"
| "fpow PInf n = PInf"
| "fpow NInf n = inf_of (even n)"
| "fpow NaN n = NaN"

text \<open>\<^verbatim>\<open>Series.mean()\<close>: the sum of the values present over their number; NaN when
  there is none (zero over zero).\<close>

definition mean :: "fl list \<Rightarrow> fl" where
  "mean vs = (let xs = notna vs in fdiv (fsum xs) (Fin (real (length xs))))"

text \<open>\<^verbatim>\<open>Series.std()\<close>: the sample standard deviation of the values present; NaN
  when there are fewer than two.\<close>

definition std :: "fl list \<Rightarrow> fl" where
  "std vs =
     (let xs = notna vs; n = length xs in
      if n \<le> 1 then NaN
      else
        let avg = fdiv (fsum xs) (Fin (real n));
            sqr = fsum (map (\<lambda>x. fmul (fsub avg x) (fsub avg x)) xs)
        in fsqrt (fdiv sqr (Fin (real (n - 1)))))"

text \<open>\<^verbatim>\<open>Series.count()\<close>: the number of values present.\<close>

definition count_notna :: "fl list \<Rightarrow> nat" where
  "count_notna vs = length (notna vs)"

text \<open>Line 95: \<^verbatim>\<open>annual_return = (1 + returns.mean()) ** 252 - 1\<close>.\<close>

definition annual_return :: "'i series \<Rightarrow> fl" where
  "annual_return rets = fsub (fpow (fadd (Fin 1) (mean (vals rets))) 252) (Fin 1)"

text \<open>Line 96: \<^verbatim>\<open>annual_volatility = returns.std() * np.sqrt(252)\<close>.\<close>

definition annual_volatility :: "'i series \<Rightarrow> fl" where
  "annual_volatility rets = fmul (std (vals rets)) (Fin (sqrt 252))"

text \<open>
  \<^verbatim>\<open>Series.cummax()\<close>: the running maximum, starting from minus infinity. A NaN row
  stays NaN and leaves the running maximum as it is.
\<close>

definition fmax :: "fl \<Rightarrow> fl \<Rightarrow> fl" where
  "fmax a b = (if flt a b then b else a)"

definition fmin :: "fl \<Rightarrow> fl \<Rightarrow> fl" where
  "fmin a b = (if flt b a then b else a)"

fun cummax_from :: "fl \<Rightarrow> fl list \<Rightarrow> fl list" where
  "cummax_from mx [] = []"
| "cummax_from mx (v # vs) =
     (if isnan v then NaN # cummax_from mx vs
      else fmax mx v # cummax_from (fmax mx v) vs)"

definition cummax :: "fl list \<Rightarrow> fl list" where
  "cummax vs = cummax_from NInf vs"

text \<open>Line 98: \<^verbatim>\<open>drawdown = price_series / price_series.cummax() - 1\<close>.\<close>

definition drawdown :: "'i series \<Rightarrow> 'i series" where
  "drawdown price_series =
     zip (labels price_series)
       (map2 (\<lambda>p m. fsub (fdiv p m) (Fin 1)) (vals price_series) (cummax (vals price_series)))"

text \<open>\<^verbatim>\<open>Series.min()\<close>: the least of the values present; NaN when there is none.\<close>

definition series_min :: "fl list \<Rightarrow> fl" where
  "series_min vs = (case notna vs of [] \<Rightarrow> NaN | x # xs \<Rightarrow> foldl fmin x xs)"

text \<open>Line 99: \<^verbatim>\<open>max_drawdown = drawdown.min()\<close>.\<close>

definition max_drawdown :: "'i series \<Rightarrow> fl" where
  "max_drawdown price_series = series_min (vals (drawdown price_series))"

text \<open>Line 100: \<^verbatim>\<open>down_days_pct = (returns < 0).mean() * 100\<close>, the mean of a column
  of booleans.\<close>

definition down_days_pct :: "'i series \<Rightarrow> fl" where
  "down_days_pct rets =
     (let below = map (\<lambda>v. flt v (Fin 0)) (vals rets) in
      fmul (fdiv (Fin (real (length (filter id below)))) (Fin (real (length below))))
        (Fin 100))"

record risk_metrics =
  rm_annual_return :: fl
  rm_annual_volatility :: fl
  rm_max_drawdown :: fl
  rm_down_days_pct :: fl

definition core_risk_metrics :: "'i series \<Rightarrow> risk_metrics" where
  "core_risk_metrics price_series =
     \<lparr> rm_annual_return = annual_return (returns price_series),
       rm_annual_volatility = annual_volatility (returns price_series),
       rm_max_drawdown = max_drawdown price_series,
       rm_down_days_pct = down_days_pct (returns price_series) \<rparr>"

section \<open>Rolling volatility and regimes (lines 105 to 109)\<close>

text \<open>
  \<^verbatim>\<open>rolling(w).std()\<close>: the row at position \<open>i\<close> looks at the \<open>w\<close> values that end
  there. It is NaN while fewer than \<open>w\<close> values are behind it, and NaN when one of them
  is missing; pandas turns an infinity into a missing value before it rolls.
\<close>

definition window_std :: "fl list \<Rightarrow> fl" where
  "window_std win = (if list_all isfinite win then std win else NaN)"

definition rolling_std :: "nat \<Rightarrow> fl list \<Rightarrow> fl list" where
  "rolling_std w vs =
     map (\<lambda>i. if Suc i < w then NaN else window_std (take w (drop (Suc i - w) vs)))
       [0..<length vs]"

text \<open>Line 105: \<^verbatim>\<open>rolling_vol = returns.rolling(252).std() * np.sqrt(252)\<close>.\<close>

definition rolling_vol :: "'i series \<Rightarrow> 'i series" where
  "rolling_vol rets =
     zip (labels rets) (map (\<lambda>v. fmul v (Fin (sqrt 252))) (rolling_std 252 (vals rets)))"

text \<open>Sorting as numpy sorts floats: ascending, the NaNs last.\<close>

definition sort_le :: "fl \<Rightarrow> fl \<Rightarrow> bool" where
  "sort_le a b = (isnan b \<or> fle a b)"

fun fl_insort :: "fl \<Rightarrow> fl list \<Rightarrow> fl list" where
  "fl_insort x [] = [x]"
| "fl_insort x (y # ys) = (if sort_le x y then x # y # ys else y # fl_insort x ys)"

definition fl_sort :: "fl list \<Rightarrow> fl list" where
  "fl_sort vs = foldr fl_insort vs []"

text \<open>\<^verbatim>\<open>Series.median()\<close>: the median of the values present; NaN when there is none.\<close>

definition median :: "fl list \<Rightarrow> fl" where
  "median vs =
     (let xs = fl_sort (notna vs); n = length xs in
      if n = 0 then NaN
      else if odd n then xs ! (n div 2)
      else fdiv (fadd (xs ! (n div 2 - 1)) (xs ! (n div 2))) (Fin 2))"

text \<open>Line 106: \<^verbatim>\<open>vol_threshold = rolling_vol.median()\<close>.\<close>

definition vol_threshold :: "'i series \<Rightarrow> fl" where
  "vol_threshold rets = median (vals (rolling_vol rets))"

datatype regime_label = HighVolatility | LowVolatility

text \<open>Line 107: \<^verbatim>\<open>np.where(rolling_vol > vol_threshold, "High Volatility", "Low Volatility")\<close>,
  an array by position. A NaN volatility compares false and is labelled low.\<close>

definition regime :: "'i series \<Rightarrow> regime_label list" where
  "regime rets =
     map (\<lambda>v. if flt (vol_threshold rets) v then HighVolatility else LowVolatility)
       (vals (rolling_vol rets))"

record 'i regime_row =
  Index :: 'i
  Returns :: fl
  Volatility :: fl
  Regime :: regime_label

text \<open>Line 108: the three columns side by side, then \<^verbatim>\<open>dropna()\<close>: a row goes when
  its return or its volatility is NaN.\<close>

definition regime_frame :: "'i series \<Rightarrow> 'i regime_row list" where
  "regime_frame rets =
     map (\<lambda>((i, r), v, l). \<lparr> Index = i, Returns = r, Volatility = v, Regime = l \<rparr>)
       (zip rets (zip (vals (rolling_vol rets)) (regime rets)))"

definition regime_df :: "'i series \<Rightarrow> 'i regime_row list" where
  "regime_df rets =
     filter (\<lambda>row. \<not> isnan (Returns row) \<and> \<not> isnan (Volatility row)) (regime_frame rets)"

text \<open>
  Line 109: \<^verbatim>\<open>groupby("Regime")["Returns"].agg(["mean", "std", "count"])\<close>. One group
  for each label that occurs, in the order of the keys ("High Volatility" sorts before
  "Low Volatility").
\<close>

record regime_agg =
  agg_mean :: fl
  agg_std :: fl
  agg_count :: nat

definition group_returns :: "'i regime_row list \<Rightarrow> regime_label \<Rightarrow> fl list" where
  "group_returns df l = map Returns (filter (\<lambda>row. Regime row = l) df)"

definition agg :: "fl list \<Rightarrow> regime_agg" where
  "agg rs = \<lparr> agg_mean = mean rs, agg_std = std rs, agg_count = count_notna rs \<rparr>"

definition groupby_agg :: "'i regime_row list \<Rightarrow> (regime_label \<times> regime_agg) list" where
  "groupby_agg df =
     concat (map (\<lambda>l. if group_returns df l = [] then [] else [(l, agg (group_returns df l))])
       [HighVolatility, LowVolatility])"

definition regime_stats :: "'i series \<Rightarrow> (regime_label \<times> regime_agg) list" where
  "regime_stats rets = groupby_agg (regime_df rets)"

section \<open>Stress periods (line 114)\<close>

text \<open>\<^verbatim>\<open>stress_periods = drawdown[drawdown < -0.3]\<close>: the rows under the mask.\<close>

definition stress_periods :: "'i series \<Rightarrow> 'i series" where
  "stress_periods dd = filter (\<lambda>(i, v). flt v (Fin (- 3 / 10))) dd"


section \<open>Monte Carlo projections (lines 179 to 201)\<close>

datatype error = ValueError string | IndexError string

text \<open>Line 180: \<^verbatim>\<open>last_price = price_series.iloc[-1]\<close>, which raises on an empty
  series.\<close>

definition last_price :: "'i series \<Rightarrow> error + fl" where
  "last_price price_series =
     (if price_series = [] then Inl (IndexError ''single positional indexer is out-of-bounds'')
      else Inr (snd (last price_series)))"

text \<open>Lines 181 and 182.\<close>

definition mean_return :: "'i series \<Rightarrow> fl" where
  "mean_return rets = mean (vals rets)"

definition vol :: "'i series \<Rightarrow> fl" where
  "vol rets = std (vals rets)"

text \<open>
  The generator behind \<^verbatim>\<open>np.random\<close> is the one of the process: the script never
  seeds it and never passes it. Its state is threaded through the model: \<open>gauss\<close> is
  one standard normal draw, a finite number, with the state it leaves. numpy's
  generator itself is a parameter of the model.
\<close>

fun draw_n :: "('g \<Rightarrow> real \<times> 'g) \<Rightarrow> nat \<Rightarrow> 'g \<Rightarrow> real list \<times> 'g" where
  "draw_n gauss 0 g = ([], g)"
| "draw_n gauss (Suc k) g =
     (case gauss g of (z, g1) \<Rightarrow>
        (case draw_n gauss k g1 of (zs, g2) \<Rightarrow> (z # zs, g2)))"

text \<open>\<^verbatim>\<open>np.random.normal(loc, scale, size)\<close>: a negative scale is refused, a NaN one is
  not; each sample is \<^verbatim>\<open>loc + scale * gauss()\<close>.\<close>

definition normal ::
  "('g \<Rightarrow> real \<times> 'g) \<Rightarrow> fl \<Rightarrow> fl \<Rightarrow> nat \<Rightarrow> 'g \<Rightarrow> error + (fl list \<times> 'g)" where
  "normal gauss loc scale sz g =
     (if flt scale (Fin 0) then Inl (ValueError ''scale < 0'')
      else
        (case draw_n gauss sz g of (zs, g1) \<Rightarrow>
           Inr (map (\<lambda>z. fadd loc (fmul scale (Fin z))) zs, g1)))"

text \<open>\<^verbatim>\<open>np.cumprod\<close>: the running product.\<close>

fun cumprod_from :: "fl \<Rightarrow> fl list \<Rightarrow> fl list" where
  "cumprod_from acc [] = []"
| "cumprod_from acc (x # xs) = fmul acc x # cumprod_from (fmul acc x) xs"

fun cumprod :: "fl list \<Rightarrow> fl list" where
  "cumprod [] = []"
| "cumprod (x # xs) = x # cumprod_from x xs"

text \<open>Line 195: \<^verbatim>\<open>path = last_price * np.cumprod(1 + simulated_returns)\<close>.\<close>

definition path_of :: "fl \<Rightarrow> fl list \<Rightarrow> fl list" where
  "path_of lp simulated_returns = map (fmul lp) (cumprod (map (fadd (Fin 1)) simulated_returns))"

text \<open>Lines 192 to 196: the loop over \<^verbatim>\<open>range(num_simulations)\<close>. A raise inside
  leaves the loop.\<close>

fun all_paths ::
  "('g \<Rightarrow> real \<times> 'g) \<Rightarrow> fl \<Rightarrow> fl \<Rightarrow> fl \<Rightarrow> nat \<Rightarrow> nat \<Rightarrow> 'g \<Rightarrow> error + (fl list list \<times> 'g)" where
  "all_paths gauss lp mu sigma days 0 g = Inr ([], g)"
| "all_paths gauss lp mu sigma days (Suc k) g =
     (case normal gauss mu sigma days g of
        Inl e \<Rightarrow> Inl e
      | Inr (simulated_returns, g1) \<Rightarrow>
          (case all_paths gauss lp mu sigma days k g1 of
             Inl e \<Rightarrow> Inl e
           | Inr (paths, g2) \<Rightarrow> Inr (path_of lp simulated_returns # paths, g2)))"

text \<open>
  \<^verbatim>\<open>np.percentile(a, q)\<close> with the default linear method, on one column. The column is
  sorted, NaNs last; a NaN in it makes the result NaN. The virtual index is
  \<open>(n - 1) * q / 100\<close>; the two neighbours are interpolated, and numpy's \<^verbatim>\<open>_lerp\<close>
  switches its formula at one half.
\<close>

definition lerp :: "fl \<Rightarrow> fl \<Rightarrow> real \<Rightarrow> fl" where
  "lerp a b t =
     (let diff_b_a = fsub b a in
      if 1 / 2 \<le> t then fsub b (fmul diff_b_a (Fin (1 - t)))
      else fadd a (fmul diff_b_a (Fin t)))"

definition percentile :: "fl list \<Rightarrow> real \<Rightarrow> fl" where
  "percentile a q =
     (let arr = fl_sort a; n = length arr in
      if n = 0 then NaN
      else if isnan (last arr) then NaN
      else
        let virtual_index = real (n - 1) * (q / 100);
            above = (real (n - 1) \<le> virtual_index);
            previous_index = (if above then n - 1 else nat \<lfloor>virtual_index\<rfloor>);
            next_index = (if above then n - 1 else nat \<lfloor>virtual_index\<rfloor> + 1);
            gamma = (if above then virtual_index + 1
                     else virtual_index - real_of_int \<lfloor>virtual_index\<rfloor>)
        in lerp (arr ! previous_index) (arr ! next_index) gamma)"

text \<open>\<^verbatim>\<open>np.percentile(all_paths, q, axis=0)\<close>: one percentile for each day offset, over
  the values the paths have there.\<close>

definition column :: "fl list list \<Rightarrow> nat \<Rightarrow> fl list" where
  "column paths t = map (\<lambda>path. path ! t) paths"

definition percentile_axis0 :: "fl list list \<Rightarrow> nat \<Rightarrow> real \<Rightarrow> fl list" where
  "percentile_axis0 paths days q = map (\<lambda>t. percentile (column paths t) q) [0..<days]"

record band =
  p5 :: "fl list"
  p50 :: "fl list"
  p95 :: "fl list"

text \<open>Lines 199 to 201.\<close>

definition bands_of :: "fl list list \<Rightarrow> nat \<Rightarrow> band" where
  "bands_of paths days =
     \<lparr> p5 = percentile_axis0 paths days 5,
       p50 = percentile_axis0 paths days 50,
       p95 = percentile_axis0 paths days 95 \<rparr>"

text \<open>One turn of the loop of line 191: the paths of one horizon and their bands,
  with the state the generator is left in.\<close>

definition simulate ::
  "('g \<Rightarrow> real \<times> 'g) \<Rightarrow> fl \<Rightarrow> fl \<Rightarrow> fl \<Rightarrow> nat \<Rightarrow> nat \<Rightarrow> 'g \<Rightarrow> error + (band \<times> 'g)" where
  "simulate gauss lp mu sigma days num_simulations g =
     (case all_paths gauss lp mu sigma days num_simulations g of
        Inl e \<Rightarrow> Inl e
      | Inr (paths, g1) \<Rightarrow> Inr (bands_of paths days, g1))"

text \<open>Lines 184 to 189.\<close>

definition forecast_horizons :: "nat list" where
  "forecast_horizons = [1, 21, 252, 252 * 5]"

fun forecast ::
  "('g \<Rightarrow> real \<times> 'g) \<Rightarrow> fl \<Rightarrow> fl \<Rightarrow> fl \<Rightarrow> nat \<Rightarrow> nat list \<Rightarrow> 'g \<Rightarrow> error + (band list \<times> 'g)" where
  "forecast gauss lp mu sigma num_simulations [] g = Inr ([], g)"
| "forecast gauss lp mu sigma num_simulations (days # rest) g =
     (case simulate gauss lp mu sigma days num_simulations g of
        Inl e \<Rightarrow> Inl e
      | Inr (b, g1) \<Rightarrow>
          (case forecast gauss lp mu sigma num_simulations rest g1 of
             Inl e \<Rightarrow> Inl e
           | Inr (bs, g2) \<Rightarrow> Inr (b # bs, g2)))"

text \<open>
  For the proofs: the paths of one horizon written as a function of the standard normal
  draws the loop consumes, \<open>days\<close> of them for each path, in the order they are drawn.
\<close>

fun paths_from_draws :: "fl \<Rightarrow> fl \<Rightarrow> fl \<Rightarrow> nat \<Rightarrow> nat \<Rightarrow> real list \<Rightarrow> fl list list" where
  "paths_from_draws lp mu sigma days 0 zs = []"
| "paths_from_draws lp mu sigma days (Suc k) zs =
     path_of lp (map (\<lambda>z. fadd mu (fmul sigma (Fin z))) (take days zs)) #
     paths_from_draws lp mu sigma days k (drop days zs)"

text \<open>
  For the proofs: the linear interpolation of a sorted list of reals at a virtual
  index \<open>v\<close>, the value \<^verbatim>\<open>np.percentile\<close> returns on a column of finite numbers.
\<close>

definition interp :: "real list \<Rightarrow> real \<Rightarrow> real" where
  "interp ys v =
     (if real (length ys - 1) \<le> v then ys ! (length ys - 1)
      else ys ! nat \<lfloor>v\<rfloor> + (ys ! (nat \<lfloor>v\<rfloor> + 1) - ys ! nat \<lfloor>v\<rfloor>) * (v - real_of_int \<lfloor>v\<rfloor>))"

text \<open>For the proofs: the real number that a finite value stands for.\<close>

fun rv :: "fl \<Rightarrow> real" where
  "rv (Fin a) = a"
| "rv _ = 0"

section \<open>The script from line 94 on\<close>

record 'i report =
  metrics :: risk_metrics
  stats :: "(regime_label \<times> regime_agg) list"
  stress :: "'i series"
  projections :: "band list"

text \<open>
  The computations of the script in their order, from the prepared price series to the
  last projection; the calls that only display a value are left out. Nothing between
  lines 83 and 179 raises; the first statement that can is line 180.
  \<open>num_simulations\<close> is the value of the slider of line 179, from 100 to 5000.
\<close>

definition analysis ::
  "('g \<Rightarrow> real \<times> 'g) \<Rightarrow> nat \<Rightarrow> 'i series \<Rightarrow> 'g \<Rightarrow> error + ('i report \<times> 'g)" where
  "analysis gauss num_simulations price_series g =
     (let rets = returns price_series;
          m = core_risk_metrics price_series;
          rs = regime_stats rets;
          sp = stress_periods (drawdown price_series)
      in case last_price price_series of
           Inl e \<Rightarrow> Inl e
         | Inr lp \<Rightarrow>
             (case forecast gauss lp (mean_return rets) (vol rets) num_simulations
                     forecast_horizons g of
                Inl e \<Rightarrow> Inl e
              | Inr (bs, g1) \<Rightarrow>
                  Inr (\<lparr> metrics = m, stats = rs, stress = sp, projections = bs \<rparr>, g1)))"

section \<open>Date column detection (lines 31 to 42)\<close>

text \<open>
  What \<^verbatim>\<open>pd.to_datetime\<close> makes of one cell: a timestamp, NaT for a missing cell, or
  no date at all. How a cell is read is pandas' business and a parameter here. With
  \<^verbatim>\<open>errors="raise"\<close> one cell that is no date raises for the whole column.
\<close>

datatype 'd parsed = Parsed 'd | NaT | Invalid

fun is_parsed :: "'d parsed \<Rightarrow> bool" where
  "is_parsed (Parsed _) = True"
| "is_parsed _ = False"

fun is_invalid :: "'d parsed \<Rightarrow> bool" where
  "is_invalid Invalid = True"
| "is_invalid _ = False"

definition to_datetime :: "('c \<Rightarrow> 'd parsed) \<Rightarrow> 'c list \<Rightarrow> error + 'd parsed list" where
  "to_datetime parse cells =
     (if list_ex (\<lambda>c. is_invalid (parse c)) cells then Inl (ValueError ''Unknown datetime string format'')
      else Inr (map parse cells))"

text \<open>A frame is its columns in order, each a name with its cells; \<open>len_df\<close> is the
  number of rows.\<close>

type_synonym ('n, 'c) frame = "('n \<times> 'c list) list"

text \<open>The loop of lines 33 to 40 over the columns still to look at: the
  \<^verbatim>\<open>except: continue\<close> goes on to the next column, \<^verbatim>\<open>break\<close> stops at the first
  column that passes line 36.\<close>

fun date_col_loop :: "('c \<Rightarrow> 'd parsed) \<Rightarrow> nat \<Rightarrow> ('n, 'c) frame \<Rightarrow> 'n option" where
  "date_col_loop parse len_df [] = None"
| "date_col_loop parse len_df ((col, cells) # rest) =
     (case to_datetime parse cells of
        Inl e \<Rightarrow> date_col_loop parse len_df rest
      | Inr ps \<Rightarrow>
          if real len_df * (1 / 2) < real (length (filter is_parsed ps)) then Some col
          else date_col_loop parse len_df rest)"

text \<open>Lines 32 to 42.\<close>

definition detect_date_col :: "('c \<Rightarrow> 'd parsed) \<Rightarrow> nat \<Rightarrow> ('n, 'c) frame \<Rightarrow> error + 'n" where
  "detect_date_col parse len_df df =
     (case date_col_loop parse len_df df of
        None \<Rightarrow> Inl (ValueError ''No valid date column detected.'')
      | Some col \<Rightarrow> Inr col)"

section \<open>Arithmetic with the special values\<close>

lemma fsub_Fin [simp]: "fsub (Fin a) (Fin b) = Fin (a - b)"
  by (simp add: fsub_def)

lemma fsub_inf_of [simp]: "fsub (inf_of c) (Fin b) = inf_of c"
  by (cases c) (simp_all add: fsub_def)

lemma fadd_NaN_right [simp]: "fadd a NaN = NaN"
  by (cases a) simp_all

lemma fmul_NaN_right [simp]: "fmul a NaN = NaN"
  by (cases a) simp_all

lemma fdiv_NaN_right [simp]: "fdiv a NaN = NaN"
  by (cases a) simp_all

lemma fsub_NaN [simp]: "fsub NaN b = NaN"
  by (simp add: fsub_def)

lemma isnan_inf_of [simp]: "\<not> isnan (inf_of c)"
  by (cases c) simp_all

lemma isnan_zero_of [simp]: "\<not> isnan (zero_of c)"
  by (cases c) simp_all

lemma fadd_zero_of_right [simp]: "fadd (Fin a) (zero_of c) = Fin a"
  by (cases c) simp_all

lemma fadd_zero_of_left [simp]: "fadd (zero_of c) (Fin b) = Fin b"
  by (cases c) simp_all

lemma fsub_Fin_zero_of [simp]: "fsub (Fin a) (zero_of c) = Fin a"
  by (cases c) (simp_all add: fsub_def)

lemma fsub_zero_of_Fin [simp]: "b \<noteq> 0 \<Longrightarrow> fsub (zero_of c) (Fin b) = Fin (- b)"
  by (cases c) (simp_all add: fsub_def)

lemma fadd_fmul_Fin: "fadd (Fin a) (fmul (Fin x) (Fin y)) = Fin (a + x * y)"
  by simp

lemma fsub_fmul_Fin: "fsub (Fin b) (fmul (Fin x) (Fin y)) = Fin (b - x * y)"
  by simp

section \<open>The return series\<close>

lemma pct_change_length [simp]: "length (pct_change s) = length s"
  by (simp add: pct_change_def labels_def vals_def shift1_def)

lemma pct_change_nth:
  assumes "i < length s"
  shows "pct_change s ! i =
     (fst (s ! i), fsub (fdiv (snd (s ! i)) (if i = 0 then NaN else snd (s ! (i - 1)))) (Fin 1))"
proof -
  have "shift1 (vals s) ! i = (if i = 0 then NaN else snd (s ! (i - 1)))"
    using assms by (cases i) (simp_all add: shift1_def vals_def)
  then show ?thesis
    using assms by (simp add: pct_change_def labels_def vals_def shift1_def)
qed

lemma filter_drop_head:
  assumes "xs \<noteq> []" and "\<not> P (hd xs)" and "\<forall>k. 0 < k \<and> k < length xs \<longrightarrow> P (xs ! k)"
  shows "filter P xs = tl xs"
proof (cases xs)
  case Nil
  with assms show ?thesis by simp
next
  case (Cons x rest)
  have "\<forall>y \<in> set rest. P y"
  proof
    fix y assume "y \<in> set rest"
    then obtain k where "k < length rest" "rest ! k = y" by (auto simp: in_set_conv_nth)
    with assms(3) Cons show "P y" by (auto dest: spec [of _ "Suc k"])
  qed
  with assms(2) Cons show ?thesis by simp
qed

lemma fin_series_nth:
  "i < length S \<Longrightarrow> fin_series S ! i = (fst (S ! i), Fin (snd (S ! i)))"
  by (simp add: fin_series_def case_prod_beta)

lemma fin_series_length [simp]: "length (fin_series S) = length S"
  by (simp add: fin_series_def)

text \<open>
  Claim C1. For every price series with \<open>n \<ge> 2\<close> entries, the prices being finite and
  strictly positive as those of a price series are, the return series has exactly
  \<open>n - 1\<close> rows, and the row for price index \<open>i\<close> (for \<open>i\<close> from 1 to \<open>n - 1\<close>) carries
  the label of that price and the value \<open>price[i] / price[i-1] - 1\<close>.
\<close>

theorem returns_length_values:
  fixes S :: "('i \<times> real) list"
  assumes "2 \<le> length S" and "\<forall>x \<in> set S. 0 < snd x"
  shows "length (returns (fin_series S)) = length S - 1 \<and>
    (\<forall>i. 1 \<le> i \<and> i < length S \<longrightarrow>
       returns (fin_series S) ! (i - 1) =
         (fst (S ! i), Fin (snd (S ! i) / snd (S ! (i - 1)) - 1)))"
proof -
  let ?pc = "pct_change (fin_series S)"
  have len: "length ?pc = length S" by simp
  have val: "?pc ! i = (fst (S ! i), Fin (snd (S ! i) / snd (S ! (i - 1)) - 1))"
    if "0 < i" "i < length S" for i
  proof -
    from that obtain k where k: "i = Suc k" by (cases i) auto
    have "0 < snd (S ! Suc k)" and "0 < snd (S ! k)"
      using that k assms(2) by simp_all
    then show ?thesis
      using that k by (simp add: pct_change_nth fin_series_nth)
  qed
  have ne: "?pc \<noteq> []" using assms(1) len by (cases ?pc) auto
  have pos: "0 < length (fin_series S)" using assms(1) by (cases S) auto
  have head: "isnan (snd (hd ?pc))"
    using pct_change_nth [OF pos] by (simp add: hd_conv_nth ne)
  have rest: "\<forall>k. 0 < k \<and> k < length ?pc \<longrightarrow> \<not> isnan (snd (?pc ! k))"
  proof (intro allI impI)
    fix k assume "0 < k \<and> k < length ?pc"
    then have "0 < k" "k < length S" by simp_all
    from val [OF this] show "\<not> isnan (snd (?pc ! k))" by simp
  qed
  have "returns (fin_series S) = tl ?pc"
    unfolding returns_def dropna_def
    using filter_drop_head [of ?pc "\<lambda>(i, v). \<not> isnan v"] ne head rest
    by (simp add: case_prod_beta)
  then show ?thesis using val len by (auto simp: nth_tl)
qed

text \<open>The theorem on the prices 100, 102, 101, 105.\<close>

theorem returns_length_values_witness:
  "length (returns (fin_series [(0::nat, 100), (1, 102), (2, 101), (3, 105)])) = 3 \<and>
   returns (fin_series [(0::nat, 100), (1, 102), (2, 101), (3, 105)]) ! 0 =
     (1, Fin (102 / 100 - 1)) \<and>
   returns (fin_series [(0::nat, 100), (1, 102), (2, 101), (3, 105)]) ! 1 =
     (2, Fin (101 / 102 - 1)) \<and>
   returns (fin_series [(0::nat, 100), (1, 102), (2, 101), (3, 105)]) ! 2 =
     (3, Fin (105 / 101 - 1))"
proof -
  let ?S = "[(0::nat, 100::real), (1, 102), (2, 101), (3, 105)]"
  have h1: "2 \<le> length ?S" by simp
  have h2: "\<forall>x \<in> set ?S. 0 < snd x" by simp
  from returns_length_values [OF h1 h2]
  have len: "length (returns (fin_series ?S)) = 3"
    and v: "\<And>i. 1 \<le> i \<and> i < length ?S \<Longrightarrow> returns (fin_series ?S) ! (i - 1) =
         (fst (?S ! i), Fin (snd (?S ! i) / snd (?S ! (i - 1)) - 1))"
    by simp_all
  from v [of 1] v [of 2] v [of 3] len show ?thesis by simp
qed

section \<open>The drawdown curve\<close>

lemma vals_fin_series [simp]: "vals (fin_series S) = map Fin (map snd S)"
  by (simp add: vals_def fin_series_def case_prod_beta)

lemma labels_fin_series [simp]: "labels (fin_series S) = map fst S"
  by (simp add: labels_def fin_series_def case_prod_beta)

lemma fmax_Fin [simp]: "fmax (Fin a) (Fin b) = Fin (max a b)"
  by (simp add: fmax_def max_def)

lemma fmin_Fin [simp]: "fmin (Fin a) (Fin b) = Fin (min a b)"
  by (auto simp add: fmin_def min_def)

lemma cummax_from_length [simp]: "length (cummax_from mx vs) = length vs"
  by (induction vs arbitrary: mx) simp_all

lemma cummax_from_Fin:
  "i < length rs \<Longrightarrow>
   cummax_from (Fin m) (map Fin rs) ! i = Fin (Max (insert m (set (take (Suc i) rs))))"
proof (induction rs arbitrary: m i)
  case Nil
  then show ?case by simp
next
  case (Cons r rs)
  show ?case
  proof (cases i)
    case 0
    then show ?thesis by (simp add: max.commute)
  next
    case (Suc j)
    with Cons.prems have j: "j < length rs" by simp
    have "Max (insert (max m r) (set (take (Suc j) rs))) =
          Max (insert m (insert r (set (take (Suc j) rs))))"
      by (cases "set (take (Suc j) rs) = {}") (simp_all add: max.assoc)
    with Cons.IH [OF j, of "max m r"] Suc show ?thesis by simp
  qed
qed

lemma cummax_Fin:
  assumes "i < length rs"
  shows "cummax (map Fin rs) ! i = Fin (Max (set (take (Suc i) rs)))"
proof (cases rs)
  case Nil
  with assms show ?thesis by simp
next
  case (Cons r rest)
  show ?thesis
  proof (cases i)
    case 0
    with Cons show ?thesis by (simp add: cummax_def fmax_def)
  next
    case (Suc j)
    with assms Cons have j: "j < length rest" by simp
    from cummax_from_Fin [OF j, of r] Suc Cons show ?thesis
      by (simp add: cummax_def fmax_def)
  qed
qed

lemma drawdown_length [simp]: "length (drawdown s) = length s"
  by (simp add: drawdown_def labels_def vals_def cummax_def)

lemma running_max_bounds:
  fixes rs :: "real list"
  assumes "i < length rs"
  shows "rs ! i \<le> Max (set (take (Suc i) rs))"
proof -
  have "rs ! i \<in> set (take (Suc i) rs)"
    using assms by (simp add: take_Suc_conv_app_nth)
  then show ?thesis by simp
qed

lemma drawdown_nth:
  fixes S :: "('i \<times> real) list"
  assumes pos: "\<forall>x \<in> set S. 0 < snd x" and i: "i < length S"
  shows "drawdown (fin_series S) ! i =
    (fst (S ! i), Fin (snd (S ! i) / Max (set (take (Suc i) (map snd S))) - 1))"
proof -
  let ?M = "Max (set (take (Suc i) (map snd S)))"
  have "0 < snd (S ! i)" using pos i by simp
  moreover have "map snd S ! i \<le> ?M" using i running_max_bounds [of i "map snd S"] by simp
  ultimately have M: "?M \<noteq> 0" using i by simp
  have "cummax (map Fin (map snd S)) ! i = Fin ?M"
    using i cummax_Fin [of i "map snd S"] by simp
  then show ?thesis
    using i M \<open>0 < snd (S ! i)\<close> by (simp add: drawdown_def cummax_def)
qed

lemma foldl_fmin_Fin:
  "foldl fmin (Fin x) (map Fin xs) = Fin (Min (insert x (set xs)))"
proof (induction xs arbitrary: x)
  case Nil
  then show ?case by simp
next
  case (Cons y ys)
  have "Min (insert (min x y) (set ys)) = Min (insert x (insert y (set ys)))"
    by (cases "set ys = {}") (simp_all add: min.assoc)
  with Cons.IH [of "min x y"] show ?case by simp
qed

lemma notna_Nil [simp]: "notna [] = []"
  by (simp add: notna_def)

lemma notna_Cons [simp]: "notna (v # vs) = (if isnan v then notna vs else v # notna vs)"
  by (simp add: notna_def)

lemma notna_Fin [simp]: "notna (map Fin xs) = map Fin xs"
  by (induction xs) simp_all

lemma series_min_Fin:
  "xs \<noteq> [] \<Longrightarrow> series_min (map Fin xs) = Fin (Min (set xs))"
  by (cases xs) (simp_all add: series_min_def foldl_fmin_Fin)

text \<open>
  Claim C2. For a series of strictly positive prices: the drawdown curve has one row
  for each price, and the row at index \<open>i\<close> is \<open>price[i] / runningMax(price[0..i]) - 1\<close>;
  every value of the curve is at most 0; the value is exactly 0 wherever the price
  equals the running maximum; and for a series that is not empty, the maximum
  drawdown is a value of the curve that no value of the curve is below.
\<close>

theorem drawdown_curve:
  fixes S :: "('i \<times> real) list"
  assumes pos: "\<forall>x \<in> set S. 0 < snd x"
  shows "length (drawdown (fin_series S)) = length S \<and>
    (\<forall>i < length S. drawdown (fin_series S) ! i =
       (fst (S ! i), Fin (snd (S ! i) / Max (set (take (Suc i) (map snd S))) - 1))) \<and>
    (\<forall>v \<in> set (vals (drawdown (fin_series S))). fle v (Fin 0)) \<and>
    (\<forall>i < length S. snd (S ! i) = Max (set (take (Suc i) (map snd S))) \<longrightarrow>
       snd (drawdown (fin_series S) ! i) = Fin 0) \<and>
    (S \<noteq> [] \<longrightarrow>
       max_drawdown (fin_series S) \<in> set (vals (drawdown (fin_series S))) \<and>
       (\<forall>v \<in> set (vals (drawdown (fin_series S))). fle (max_drawdown (fin_series S)) v))"
proof -
  let ?dd = "drawdown (fin_series S)"
  let ?M = "\<lambda>i. Max (set (take (Suc i) (map snd S)))"
  let ?d = "\<lambda>i. snd (S ! i) / ?M i - 1"
  have len: "length ?dd = length S" by simp
  have nth: "?dd ! i = (fst (S ! i), Fin (?d i))" if "i < length S" for i
    using drawdown_nth [OF pos that] .
  have le0: "?d i \<le> 0" if "i < length S" for i
  proof -
    have p: "0 < snd (S ! i)" using pos that by simp
    have "map snd S ! i \<le> ?M i" using that running_max_bounds [of i "map snd S"] by simp
    then have "snd (S ! i) \<le> ?M i" using that by simp
    with p show ?thesis by simp
  qed
  have vs: "vals ?dd = map Fin (map ?d [0..<length S])"
    by (rule nth_equalityI) (simp_all add: vals_def nth)
  have c: "\<forall>v \<in> set (vals ?dd). fle v (Fin 0)"
    unfolding vs using le0 by auto
  have z: "snd (?dd ! i) = Fin 0"
    if "i < length S" "snd (S ! i) = ?M i" for i
  proof -
    have "0 < snd (S ! i)" using pos that(1) by simp
    with that(2) have "?d i = 0" by simp
    with nth [OF that(1)] show ?thesis by simp
  qed
  have m: "max_drawdown (fin_series S) \<in> set (vals ?dd) \<and>
       (\<forall>v \<in> set (vals ?dd). fle (max_drawdown (fin_series S)) v)" if "S \<noteq> []"
  proof -
    let ?ds = "map ?d [0..<length S]"
    have ne: "?ds \<noteq> []" using that by simp
    have md: "max_drawdown (fin_series S) = Fin (Min (set ?ds))"
      unfolding max_drawdown_def vs using series_min_Fin [OF ne] .
    have "Min (set ?ds) \<in> set ?ds" using ne by (intro Min_in) simp_all
    then have in_curve: "max_drawdown (fin_series S) \<in> set (vals ?dd)"
      unfolding md vs by (metis (no_types, lifting) image_eqI list.set_map)
    have "fle (max_drawdown (fin_series S)) v" if "v \<in> set (vals ?dd)" for v
    proof -
      from that obtain x where "x \<in> set ?ds" "v = Fin x" unfolding vs by auto
      then show ?thesis unfolding md by simp
    qed
    with in_curve show ?thesis by blast
  qed
  from len nth c z m show ?thesis by blast
qed

text \<open>The theorem on the prices 100, 102, 101, 105, 103 of the spec's scenario.\<close>

theorem drawdown_curve_witness:
  "vals (drawdown (fin_series [(0::nat, 100), (1, 102), (2, 101), (3, 105), (4, 103)])) =
     [Fin 0, Fin 0, Fin (101 / 102 - 1), Fin 0, Fin (103 / 105 - 1)] \<and>
   fle (Fin (103 / 105 - 1)) (Fin 0) \<and>
   max_drawdown (fin_series [(0::nat, 100), (1, 102), (2, 101), (3, 105), (4, 103)]) =
     Fin (103 / 105 - 1)"
proof -
  let ?S = "[(0::nat, 100::real), (1, 102), (2, 101), (3, 105), (4, 103)]"
  have pos: "\<forall>x \<in> set ?S. 0 < snd x" by simp
  have dd: "vals (drawdown (fin_series ?S)) =
     [Fin 0, Fin 0, Fin (101 / 102 - 1), Fin 0, Fin (103 / 105 - 1)]"
    by (simp add: drawdown_def cummax_def fmax_def vals_def labels_def fin_series_def)
  from drawdown_curve [OF pos]
  have a: "\<forall>v \<in> set (vals (drawdown (fin_series ?S))). fle v (Fin 0)"
    and b: "max_drawdown (fin_series ?S) \<in> set (vals (drawdown (fin_series ?S)))"
    and c: "\<forall>v \<in> set (vals (drawdown (fin_series ?S))). fle (max_drawdown (fin_series ?S)) v"
    by simp_all
  from a have a': "fle (Fin (103 / 105 - 1)) (Fin 0)" unfolding dd by simp
  from b c have "max_drawdown (fin_series ?S) = Fin (103 / 105 - 1)"
    unfolding dd by auto
  with dd a' show ?thesis by simp
qed

section \<open>Stress periods\<close>

lemma filter_by_position:
  "filter P xs = map (\<lambda>k. xs ! k) (filter (\<lambda>k. P (xs ! k)) [0..<length xs])"
proof (induction xs rule: rev_induct)
  case Nil
  then show ?case by simp
next
  case (snoc x xs)
  have "filter (\<lambda>k. P ((xs @ [x]) ! k)) [0..<length xs] = filter (\<lambda>k. P (xs ! k)) [0..<length xs]"
    by (rule filter_cong) (simp_all add: nth_append)
  moreover have "map (\<lambda>k. (xs @ [x]) ! k) (filter (\<lambda>k. P (xs ! k)) [0..<length xs]) =
                 map (\<lambda>k. xs ! k) (filter (\<lambda>k. P (xs ! k)) [0..<length xs])"
    by (rule map_cong) (simp_all add: nth_append)
  ultimately show ?case using snoc.IH by simp
qed

text \<open>
  Claim C9. With the threshold \<open>-0.30\<close> of line 114, the stress periods of a drawdown
  curve are the rows at the positions whose value is strictly below \<open>-0.30\<close>, taken in
  increasing position, so in the order of the curve; a row is in the result exactly
  when it is a row of the curve with a value below the threshold; and a curve with no
  value below the threshold, such as one that is zero throughout, gives the empty
  series, which is a value like any other and no error.
\<close>

theorem stress_periods_below_threshold:
  "stress_periods dd =
     map (\<lambda>k. dd ! k) (filter (\<lambda>k. flt (snd (dd ! k)) (Fin (- 3 / 10))) [0..<length dd]) \<and>
   (\<forall>x. x \<in> set (stress_periods dd) \<longleftrightarrow> x \<in> set dd \<and> flt (snd x) (Fin (- 3 / 10))) \<and>
   (list_all (\<lambda>x. \<not> flt (snd x) (Fin (- 3 / 10))) dd \<longrightarrow> stress_periods dd = []) \<and>
   (list_all (\<lambda>x. snd x = Fin 0) dd \<longrightarrow> stress_periods dd = [])"
proof -
  have a: "stress_periods dd =
     map (\<lambda>k. dd ! k) (filter (\<lambda>k. flt (snd (dd ! k)) (Fin (- 3 / 10))) [0..<length dd])"
    unfolding stress_periods_def
    using filter_by_position [of "\<lambda>(i, v). flt v (Fin (- 3 / 10))" dd]
    by (simp add: case_prod_beta)
  have b: "\<forall>x. x \<in> set (stress_periods dd) \<longleftrightarrow> x \<in> set dd \<and> flt (snd x) (Fin (- 3 / 10))"
    by (auto simp: stress_periods_def)
  have c: "stress_periods dd = []" if "list_all (\<lambda>x. \<not> flt (snd x) (Fin (- 3 / 10))) dd"
    using that by (auto simp: stress_periods_def list_all_iff filter_empty_conv)
  have d: "stress_periods dd = []" if "list_all (\<lambda>x. snd x = Fin 0) dd"
    using that by (auto simp: stress_periods_def list_all_iff filter_empty_conv)
  from a b c d show ?thesis by blast
qed

text \<open>The theorem on a curve with two values below the threshold, one exactly on it,
  and on a curve of zeros.\<close>

theorem stress_periods_below_threshold_witness:
  "stress_periods [(0::nat, Fin 0), (1, Fin (- 4 / 10)), (2, Fin (- 3 / 10)), (3, Fin (- 1 / 2))] =
     [(1, Fin (- 4 / 10)), (3, Fin (- 1 / 2))] \<and>
   list_all (\<lambda>x. snd x = Fin 0) [(0::nat, Fin 0), (1, Fin 0)] \<and>
   stress_periods [(0::nat, Fin 0), (1, Fin 0)] = []"
proof -
  let ?dd = "[(0::nat, Fin 0), (1, Fin (- 4 / 10)), (2, Fin (- 3 / 10)), (3, Fin (- 1 / 2))]"
  let ?zz = "[(0::nat, Fin 0), (1, Fin 0)]"
  have "stress_periods ?dd =
     map (\<lambda>k. ?dd ! k) (filter (\<lambda>k. flt (snd (?dd ! k)) (Fin (- 3 / 10))) [0..<length ?dd])"
    using stress_periods_below_threshold [of ?dd] by blast
  also have "[0..<length ?dd] = [0, 1, 2, 3]" by (simp add: upt_rec)
  finally have first: "stress_periods ?dd = [(1, Fin (- 4 / 10)), (3, Fin (- 1 / 2))]" by simp
  have z: "list_all (\<lambda>x. snd x = Fin 0) ?zz" by simp
  with stress_periods_below_threshold [of ?zz] have "stress_periods ?zz = []" by blast
  with first z show ?thesis by blast
qed

section \<open>The date column\<close>

lemma half_rows:
  "(real n * (1 / 2) < real (length (filter is_parsed (map parse cells)))) =
   (n < 2 * length (filter (\<lambda>c. is_parsed (parse c)) cells))"
proof -
  have "length (filter is_parsed (map parse cells)) =
        length (filter (\<lambda>c. is_parsed (parse c)) cells)"
    by (simp add: filter_map comp_def)
  moreover have "(real n * (1 / 2) < real k) = (n < 2 * k)" for k
    by auto
  ultimately show ?thesis by (simp only:)
qed

lemma date_col_loop_Cons:
  "date_col_loop parse n ((col, cells) # rest) =
     (if list_all (\<lambda>c. \<not> is_invalid (parse c)) cells \<and>
         n < 2 * length (filter (\<lambda>c. is_parsed (parse c)) cells)
      then Some col else date_col_loop parse n rest)"
proof (cases "list_ex (\<lambda>c. is_invalid (parse c)) cells")
  case True
  then have "\<not> list_all (\<lambda>c. \<not> is_invalid (parse c)) cells"
    by (auto simp: list_ex_iff list_all_iff)
  with True show ?thesis by (simp add: to_datetime_def)
next
  case False
  then have all: "list_all (\<lambda>c. \<not> is_invalid (parse c)) cells"
    by (auto simp: list_ex_iff list_all_iff)
  have "date_col_loop parse n ((col, cells) # rest) =
        (if real n * (1 / 2) < real (length (filter is_parsed (map parse cells)))
         then Some col else date_col_loop parse n rest)"
    using False by (simp only: date_col_loop.simps to_datetime_def if_False sum.case)
  then show ?thesis using all by (simp only: half_rows simp_thms)
qed

lemma date_col_loop_first:
  "date_col_loop parse len_df df =
     (case filter (\<lambda>(col, cells). list_all (\<lambda>c. \<not> is_invalid (parse c)) cells \<and>
                     len_df < 2 * length (filter (\<lambda>c. is_parsed (parse c)) cells)) df of
        [] \<Rightarrow> None
      | (col, cells) # rest \<Rightarrow> Some col)"
proof (induction df)
  case Nil
  then show ?case by simp
next
  case (Cons column df)
  obtain col cells where column: "column = (col, cells)" by (cases column)
  show ?case
    unfolding column date_col_loop_Cons using Cons.IH by simp
qed

text \<open>
  Claim C8, as the code has it. The loop goes through the columns in order and takes
  the first one in which every cell is read without error (a missing cell is read as
  NaT) and strictly more than half of the rows hold a date. One cell that is no date
  makes \<^verbatim>\<open>pd.to_datetime(..., errors="raise")\<close> raise, and the \<^verbatim>\<open>except\<close> moves on
  to the next column. When no column passes, \<^verbatim>\<open>ValueError\<close> is raised.
\<close>

theorem detect_date_col_first:
  "detect_date_col parse len_df df =
     (case filter (\<lambda>(col, cells). list_all (\<lambda>c. \<not> is_invalid (parse c)) cells \<and>
                     len_df < 2 * length (filter (\<lambda>c. is_parsed (parse c)) cells)) df of
        [] \<Rightarrow> Inl (ValueError ''No valid date column detected.'')
      | (col, cells) # rest \<Rightarrow> Inr col)"
  unfolding detect_date_col_def date_col_loop_first
  by (simp split: list.split prod.split)

text \<open>The theorem on a frame of three rows: the first column has an unreadable cell,
  the second has dates in one row of three, the third has dates in two.\<close>

theorem detect_date_col_first_witness:
  "detect_date_col (\<lambda>c. c) 3
     [(''a'', [Parsed (1::nat), Parsed 2, Invalid]),
      (''b'', [Parsed 1, NaT, NaT]),
      (''c'', [Parsed 1, NaT, Parsed 3])] = Inr ''c''"
  using detect_date_col_first [of "\<lambda>c. c" 3
     "[(''a'', [Parsed (1::nat), Parsed 2, Invalid]),
      (''b'', [Parsed 1, NaT, NaT]),
      (''c'', [Parsed 1, NaT, Parsed 3])]"]
  by simp

text \<open>
  The spec's wording, that cells which fail to parse do not disqualify a column, fails:
  in a column of three cells two are dates, which is more than half, and the third is
  no date; the column is passed over and, being the only one, leaves the loader with
  its \<^verbatim>\<open>ValueError\<close>.
\<close>

theorem detect_date_col_counterexample:
  "real (3::nat) * (1 / 2) <
     real (length (filter is_parsed
       (map (\<lambda>c. if c = ''2024-01-01'' then Parsed (1::nat)
                 else if c = ''2024-01-02'' then Parsed 2
                 else if c = [] then NaT else Invalid)
          [''2024-01-01'', ''2024-01-02'', ''hello'']))) \<and>
   detect_date_col
     (\<lambda>c. if c = ''2024-01-01'' then Parsed (1::nat)
          else if c = ''2024-01-02'' then Parsed 2
          else if c = [] then NaT else Invalid)
     3 [(''date'', [''2024-01-01'', ''2024-01-02'', ''hello''])] =
   Inl (ValueError ''No valid date column detected.'')"
  by (simp add: detect_date_col_def to_datetime_def)

section \<open>Rolling volatility and the regime table\<close>

lemma rolling_std_length [simp]: "length (rolling_std w vs) = length vs"
  by (simp add: rolling_std_def)

lemma vals_rolling_vol:
  "vals (rolling_vol rets) = map (\<lambda>v. fmul v (Fin (sqrt 252))) (rolling_std 252 (vals rets))"
  by (simp add: rolling_vol_def vals_def labels_def)

lemma rolling_vol_length [simp]: "length (rolling_vol rets) = length rets"
  by (simp add: rolling_vol_def vals_def labels_def)

lemma vals_length [simp]: "length (vals s) = length s"
  by (simp add: vals_def)

lemma regime_length [simp]: "length (regime rets) = length rets"
  by (simp add: regime_def)

lemma regime_frame_length [simp]: "length (regime_frame rets) = length rets"
  by (simp add: regime_frame_def)

lemma regime_frame_nth:
  assumes "k < length rets"
  shows "regime_frame rets ! k =
    \<lparr> Index = fst (rets ! k), Returns = snd (rets ! k),
      Volatility = vals (rolling_vol rets) ! k, Regime = regime rets ! k \<rparr>"
  using assms by (simp add: regime_frame_def case_prod_beta)

lemma regime_frame_positions:
  "regime_frame rets =
     map (\<lambda>k. \<lparr> Index = fst (rets ! k), Returns = snd (rets ! k),
                Volatility = vals (rolling_vol rets) ! k, Regime = regime rets ! k \<rparr>)
       [0..<length rets]"
  by (rule nth_equalityI) (simp_all add: regime_frame_nth)

lemma returns_notna: "x \<in> set (returns price_series) \<Longrightarrow> \<not> isnan (snd x)"
  by (auto simp: returns_def dropna_def)

lemma group_returns_positions:
  assumes "\<forall>x \<in> set rets. \<not> isnan (snd x)"
  shows "group_returns (regime_df rets) l =
     map (\<lambda>k. snd (rets ! k))
       (filter (\<lambda>k. \<not> isnan (vals (rolling_vol rets) ! k) \<and> regime rets ! k = l)
          [0..<length rets])"
proof -
  have "filter (\<lambda>k. (\<not> isnan (snd (rets ! k)) \<and> \<not> isnan (vals (rolling_vol rets) ! k)) \<and>
                     regime rets ! k = l) [0..<length rets] =
        filter (\<lambda>k. \<not> isnan (vals (rolling_vol rets) ! k) \<and> regime rets ! k = l)
          [0..<length rets]"
    using assms by (intro filter_cong) auto
  then show ?thesis
    unfolding group_returns_def regime_df_def regime_frame_positions
    by (simp add: filter_map comp_def conj_commute)
qed

lemma group_returns_notna:
  "notna (group_returns (regime_df rets) l) = group_returns (regime_df rets) l"
proof -
  have "\<forall>v \<in> set (group_returns (regime_df rets) l). \<not> isnan v"
    by (auto simp: group_returns_def regime_df_def)
  then show ?thesis by (simp add: notna_def)
qed

lemma groupby_agg_counts:
  "sum_list (map (\<lambda>g. agg_count (snd g)) (groupby_agg df)) =
     count_notna (group_returns df HighVolatility) + count_notna (group_returns df LowVolatility)"
  by (simp add: groupby_agg_def agg_def count_notna_def)

lemma map_of_groupby_agg:
  "map_of (groupby_agg df) l =
     (if group_returns df l = [] then None else Some (agg (group_returns df l)))"
  by (cases l) (simp_all add: groupby_agg_def)

lemma two_labels_split:
  "length (filter (\<lambda>k. P k \<and> f k = HighVolatility) ks) +
   length (filter (\<lambda>k. P k \<and> f k = LowVolatility) ks) = length (filter P ks)"
proof (induction ks)
  case Nil
  then show ?case by simp
next
  case (Cons k ks)
  then show ?case by (cases "f k") auto
qed

lemma count_by_position:
  "length (filter (\<lambda>k. P (xs ! k)) [0..<length xs]) = length (filter P xs)"
  using filter_by_position [of P xs] by (metis length_map)

text \<open>
  Claim C7. For the return series of any price series: the counts of the regime
  statistics, summed over the groups, equal the number of return rows whose rolling
  volatility is defined (not NaN); and the group of a label is there exactly when some
  position with a defined rolling volatility carries that label, its mean, standard
  deviation and count being those of the returns at these positions and of no other
  row.
\<close>

theorem regime_stats_counts:
  "sum_list (map (\<lambda>g. agg_count (snd g)) (regime_stats (returns price_series))) =
     length (filter (\<lambda>v. \<not> isnan v) (vals (rolling_vol (returns price_series)))) \<and>
   (\<forall>l. map_of (regime_stats (returns price_series)) l =
      (if filter (\<lambda>k. \<not> isnan (vals (rolling_vol (returns price_series)) ! k) \<and>
                      regime (returns price_series) ! k = l)
            [0..<length (returns price_series)] = []
       then None
       else Some (agg (map (\<lambda>k. snd (returns price_series ! k))
              (filter (\<lambda>k. \<not> isnan (vals (rolling_vol (returns price_series)) ! k) \<and>
                            regime (returns price_series) ! k = l)
                 [0..<length (returns price_series)])))))"
proof -
  let ?rets = "returns price_series"
  let ?vol = "vals (rolling_vol ?rets)"
  let ?sel = "\<lambda>l. filter (\<lambda>k. \<not> isnan (?vol ! k) \<and> regime ?rets ! k = l) [0..<length ?rets]"
  have nn: "\<forall>x \<in> set ?rets. \<not> isnan (snd x)" using returns_notna by blast
  have grp: "group_returns (regime_df ?rets) l = map (\<lambda>k. snd (?rets ! k)) (?sel l)" for l
    using group_returns_positions [OF nn] .
  have cnt: "count_notna (group_returns (regime_df ?rets) l) = length (?sel l)" for l
  proof -
    have "count_notna (group_returns (regime_df ?rets) l) =
          length (group_returns (regime_df ?rets) l)"
      by (simp only: count_notna_def group_returns_notna)
    also have "\<dots> = length (?sel l)" by (simp only: grp length_map)
    finally show ?thesis .
  qed
  have "sum_list (map (\<lambda>g. agg_count (snd g)) (regime_stats ?rets)) =
        length (?sel HighVolatility) + length (?sel LowVolatility)"
    unfolding regime_stats_def groupby_agg_counts cnt ..
  also have "\<dots> = length (filter (\<lambda>k. \<not> isnan (?vol ! k)) [0..<length ?rets])"
    by (rule two_labels_split)
  also have "\<dots> = length (filter (\<lambda>v. \<not> isnan v) ?vol)"
    using count_by_position [of "\<lambda>v. \<not> isnan v" ?vol] by simp
  finally have total: "sum_list (map (\<lambda>g. agg_count (snd g)) (regime_stats ?rets)) =
        length (filter (\<lambda>v. \<not> isnan v) ?vol)" .
  have each: "map_of (regime_stats ?rets) l =
      (if ?sel l = [] then None else Some (agg (map (\<lambda>k. snd (?rets ! k)) (?sel l))))" for l
    unfolding regime_stats_def map_of_groupby_agg grp by simp
  from total each show ?thesis by blast
qed

text \<open>
  Claim C10. For a return series of fewer than 252 rows: every rolling volatility is
  NaN, the regime table is empty once the rows with a NaN are dropped, and the regime
  statistics have no group. Each of the three is a value: nothing on lines 105 to 109
  raises.
\<close>

theorem short_series_no_regimes:
  assumes "length rets < 252"
  shows "vals (rolling_vol rets) = replicate (length rets) NaN \<and>
         regime_df rets = [] \<and> regime_stats rets = []"
proof -
  have "rolling_std 252 (vals rets) = map (\<lambda>i. NaN) [0..<length rets]"
    unfolding rolling_std_def using assms by (intro map_cong) auto
  then have vol: "vals (rolling_vol rets) = replicate (length rets) NaN"
    unfolding vals_rolling_vol by (simp add: map_replicate_const)
  have "\<not> (\<not> isnan (Returns row) \<and> \<not> isnan (Volatility row))"
    if "row \<in> set (regime_frame rets)" for row
  proof -
    from that obtain k where "k < length rets" "row = regime_frame rets ! k"
      by (metis in_set_conv_nth regime_frame_length)
    then show ?thesis by (simp add: regime_frame_nth vol)
  qed
  then have df: "regime_df rets = []"
    unfolding regime_df_def by (simp add: filter_empty_conv)
  then have "regime_stats rets = []"
    by (simp add: regime_stats_def groupby_agg_def group_returns_def)
  with vol df show ?thesis by blast
qed

text \<open>The theorem on the four returns of the prices 100, 102, 101, 105, 103.\<close>

theorem short_series_no_regimes_witness:
  "length (returns (fin_series [(0::nat, 100), (1, 102), (2, 101), (3, 105), (4, 103)])) = 4 \<and>
   vals (rolling_vol (returns (fin_series [(0::nat, 100), (1, 102), (2, 101), (3, 105), (4, 103)])))
     = [NaN, NaN, NaN, NaN] \<and>
   regime_df (returns (fin_series [(0::nat, 100), (1, 102), (2, 101), (3, 105), (4, 103)])) = [] \<and>
   regime_stats (returns (fin_series [(0::nat, 100), (1, 102), (2, 101), (3, 105), (4, 103)])) = []"
proof -
  let ?rets = "returns (fin_series [(0::nat, 100), (1, 102), (2, 101), (3, 105), (4, 103)])"
  have len: "length ?rets = 4"
    by (simp add: returns_def dropna_def pct_change_def shift1_def fin_series_def
        labels_def vals_def)
  then have short: "length ?rets < 252" by simp
  from short_series_no_regimes [OF short] len show ?thesis
    by (simp add: numeral_eq_Suc)
qed

section \<open>The generator and the paths\<close>

lemma draw_n_Suc:
  "draw_n gauss (Suc k) g =
     (fst (gauss g) # fst (draw_n gauss k (snd (gauss g))),
      snd (draw_n gauss k (snd (gauss g))))"
  by (simp split: prod.split)

lemma draw_n_length [simp]: "length (fst (draw_n gauss k g)) = k"
  by (induction k arbitrary: g) (simp_all add: draw_n_Suc del: draw_n.simps(2))

lemma draw_n_add:
  "draw_n gauss (a + b) g =
     (fst (draw_n gauss a g) @ fst (draw_n gauss b (snd (draw_n gauss a g))),
      snd (draw_n gauss b (snd (draw_n gauss a g))))"
  by (induction a arbitrary: g) (simp_all add: draw_n_Suc del: draw_n.simps(2))

lemma normal_draws:
  assumes "\<not> flt sigma (Fin 0)"
  shows "normal gauss mu sigma days g =
     Inr (map (\<lambda>z. fadd mu (fmul sigma (Fin z))) (fst (draw_n gauss days g)),
          snd (draw_n gauss days g))"
  using assms by (simp add: normal_def split: prod.split)

lemma all_paths_draws:
  assumes "\<not> flt sigma (Fin 0)"
  shows "all_paths gauss lp mu sigma days n g =
     Inr (paths_from_draws lp mu sigma days n (fst (draw_n gauss (n * days) g)),
          snd (draw_n gauss (n * days) g))"
proof (induction n arbitrary: g)
  case 0
  then show ?case by simp
next
  case (Suc n)
  have split: "draw_n gauss (Suc n * days) g =
     (fst (draw_n gauss days g) @ fst (draw_n gauss (n * days) (snd (draw_n gauss days g))),
      snd (draw_n gauss (n * days) (snd (draw_n gauss days g))))"
    using draw_n_add [of gauss days "n * days" g] by simp
  show ?case
    unfolding split
    by (simp add: normal_draws [OF assms] Suc.IH)
qed

lemma simulate_draws:
  assumes "\<not> flt sigma (Fin 0)"
  shows "simulate gauss lp mu sigma days n g =
     Inr (bands_of (paths_from_draws lp mu sigma days n (fst (draw_n gauss (n * days) g))) days,
          snd (draw_n gauss (n * days) g))"
  by (simp add: simulate_def all_paths_draws [OF assms])

section \<open>Percentiles of finite columns\<close>

lemma fl_insort_Fin: "fl_insort (Fin x) (map Fin ys) = map Fin (insort x ys)"
  by (induction ys) (simp_all add: sort_le_def)

lemma fl_sort_Fin: "fl_sort (map Fin xs) = map Fin (sort xs)"
proof (induction xs)
  case Nil
  then show ?case by (simp add: fl_sort_def)
next
  case (Cons x xs)
  then show ?case by (simp add: fl_sort_def fl_insort_Fin)
qed

lemma lerp_Fin: "lerp (Fin a) (Fin b) t = Fin (a + (b - a) * t)"
proof (cases "1 / 2 \<le> t")
  case True
  then have "lerp (Fin a) (Fin b) t = Fin (b - (b - a) * (1 - t))"
    by (simp only: lerp_def Let_def fsub_Fin fsub_fmul_Fin if_True)
  then show ?thesis by (simp add: algebra_simps)
next
  case False
  then show ?thesis
    by (simp only: lerp_def Let_def fsub_Fin fadd_fmul_Fin if_False)
qed

lemma sort_not_Nil: "xs \<noteq> [] \<Longrightarrow> sort xs \<noteq> []"
  by (metis length_0_conv length_sort)

lemma virtual_index_in_range:
  assumes "0 \<le> v" and "\<not> real (n - 1) \<le> v"
  shows "nat \<lfloor>v\<rfloor> + 1 < n"
proof -
  from assms(2) have "v < real (n - 1)" by simp
  then have "\<lfloor>v\<rfloor> < int (n - 1)" by (simp add: floor_less_iff)
  moreover have "0 \<le> \<lfloor>v\<rfloor>" using assms(1) by simp
  ultimately have "nat \<lfloor>v\<rfloor> < n - 1" by (simp add: nat_less_iff)
  then show ?thesis by simp
qed

lemma percentile_Fin:
  assumes "xs \<noteq> []" and "0 \<le> q"
  shows "percentile (map Fin xs) q = Fin (interp (sort xs) (real (length xs - 1) * (q / 100)))"
proof -
  define ys where "ys = sort xs"
  define v where "v = real (length xs - 1) * (q / 100)"
  have srt: "fl_sort (map Fin xs) = map Fin ys" by (simp add: fl_sort_Fin ys_def)
  have len: "length ys = length xs" by (simp add: ys_def)
  have ne: "ys \<noteq> []" unfolding ys_def using assms(1) by (rule sort_not_Nil)
  have v0: "0 \<le> v" unfolding v_def using assms(2) by simp
  have n0: "(length xs = 0) = False" using assms(1) by simp
  have last: "isnan (last (map Fin ys)) = False" using ne by (simp add: last_map)
  have top: "length xs - 1 < length ys" using assms(1) len by simp
  show ?thesis
  proof (cases "real (length xs - 1) \<le> v")
    case True
    then have c: "(real (length xs - 1) \<le> v) = True" by simp
    have "percentile (map Fin xs) q =
          lerp (map Fin ys ! (length xs - 1)) (map Fin ys ! (length xs - 1)) (v + 1)"
      by (simp only: percentile_def Let_def srt length_map len n0 last v_def [symmetric] c
          if_True if_False)
    also have "\<dots> = Fin (ys ! (length xs - 1) + (ys ! (length xs - 1) - ys ! (length xs - 1)) * (v + 1))"
      by (simp only: nth_map [OF top] lerp_Fin)
    also have "\<dots> = Fin (ys ! (length xs - 1))"
      by simp
    also have "\<dots> = Fin (interp ys v)"
      by (simp only: interp_def len c if_True)
    finally show ?thesis by (simp only: ys_def v_def)
  next
    case False
    then have c: "(real (length xs - 1) \<le> v) = False" by simp
    from virtual_index_in_range [OF v0 False] have b: "nat \<lfloor>v\<rfloor> + 1 < length ys"
      by (simp only: len)
    then have a: "nat \<lfloor>v\<rfloor> < length ys" by simp
    have "percentile (map Fin xs) q =
          lerp (map Fin ys ! nat \<lfloor>v\<rfloor>) (map Fin ys ! (nat \<lfloor>v\<rfloor> + 1)) (v - real_of_int \<lfloor>v\<rfloor>)"
      by (simp only: percentile_def Let_def srt length_map len n0 last v_def [symmetric] c
          if_True if_False)
    also have "\<dots> = Fin (ys ! nat \<lfloor>v\<rfloor> + (ys ! (nat \<lfloor>v\<rfloor> + 1) - ys ! nat \<lfloor>v\<rfloor>) * (v - real_of_int \<lfloor>v\<rfloor>))"
      by (simp only: nth_map [OF a] nth_map [OF b] lerp_Fin)
    also have "\<dots> = Fin (interp ys v)"
      by (simp only: interp_def len c if_False)
    finally show ?thesis by (simp only: ys_def v_def)
  qed
qed




subsection \<open>Columns of finite values, the negative zero among them\<close>


lemma isfinite_zero_of [simp]: "isfinite (zero_of c)"
  by (cases c) simp_all

lemma rv_zero_of [simp]: "rv (zero_of c) = 0"
  by (cases c) simp_all


















section \<open>No drift and no volatility\<close>

lemma cumprod_from_ones:
  "cumprod_from (Fin 1) (replicate k (Fin 1)) = replicate k (Fin 1)"
  by (induction k) simp_all

lemma cumprod_ones: "cumprod (replicate k (Fin 1)) = replicate k (Fin 1)"
  by (cases k) (simp_all add: cumprod_from_ones)

lemma path_of_zero:
  "path_of (Fin p) (map (\<lambda>z. Fin 0) zs) = replicate (length zs) (Fin p)"
  by (simp add: path_of_def comp_def map_replicate_const cumprod_ones)

lemma paths_from_draws_zero:
  "length zs = n * days \<Longrightarrow>
   paths_from_draws (Fin p) (Fin 0) (Fin 0) days n zs = replicate n (replicate days (Fin p))"
proof (induction n arbitrary: zs)
  case 0
  then show ?case by simp
next
  case (Suc n)
  then have "length (drop days zs) = n * days" and "length (take days zs) = days"
    by simp_all
  with Suc.IH [of "drop days zs"] show ?case
    by (simp add: path_of_zero)
qed

lemma column_replicate:
  "t < days \<Longrightarrow> column (replicate n (replicate days x)) t = replicate n x"
  by (simp add: column_def)

lemma interp_replicate:
  assumes "0 < n" and "0 \<le> v"
  shows "interp (replicate n p) v = p"
proof (cases "real (n - 1) \<le> v")
  case True
  with assms(1) show ?thesis by (simp add: interp_def)
next
  case False
  from virtual_index_in_range [OF assms(2) False] have b: "nat \<lfloor>v\<rfloor> + 1 < n" .
  then have a: "nat \<lfloor>v\<rfloor> < n" by simp
  have "replicate n p ! nat \<lfloor>v\<rfloor> = p" using a by (rule nth_replicate)
  moreover have "replicate n p ! (nat \<lfloor>v\<rfloor> + 1) = p" using b by (rule nth_replicate)
  ultimately show ?thesis using False by (simp add: interp_def)
qed

lemma percentile_replicate:
  assumes "0 < n" and "0 \<le> q"
  shows "percentile (replicate n (Fin p)) q = Fin p"
proof -
  have ne: "replicate n p \<noteq> []" using assms(1) by simp
  have m: "replicate n (Fin p) = map Fin (replicate n p)" by simp
  have s: "sort (replicate n p) = replicate n p"
    by (rule sorted_sort_id) (simp add: sorted_replicate)
  have v: "0 \<le> real (length (replicate n p) - 1) * (q / 100)" using assms(2) by simp
  have "percentile (map Fin (replicate n p)) q =
        Fin (interp (replicate n p) (real (length (replicate n p) - 1) * (q / 100)))"
    using percentile_Fin [OF ne assms(2)] by (simp only: s)
  also have "\<dots> = Fin p" by (simp only: interp_replicate [OF assms(1) v])
  finally show ?thesis by (simp only: m)
qed

lemma percentile_axis0_replicate:
  assumes "0 < n" and "0 \<le> q"
  shows "percentile_axis0 (replicate n (replicate days (Fin p))) days q = replicate days (Fin p)"
proof -
  have "map (\<lambda>t. percentile (column (replicate n (replicate days (Fin p))) t) q) [0..<days] =
        map (\<lambda>t. Fin p) [0..<days]"
    by (rule map_cong) (simp_all add: column_replicate percentile_replicate [OF assms])
  then show ?thesis by (simp add: percentile_axis0_def map_replicate_const)
qed

text \<open>
  Claim C3. With a mean return of 0 and a volatility of 0, whatever the generator
  draws and for every last price, a finite number, every simulated path is the last
  price at every day offset; and with at least one path, \<open>p5\<close>, \<open>p50\<close> and \<open>p95\<close> are the last price at every offset.
\<close>

theorem zero_mean_zero_volatility:
  "all_paths gauss (Fin p) (Fin 0) (Fin 0) days n g =
     Inr (replicate n (replicate days (Fin p)), snd (draw_n gauss (n * days) g)) \<and>
   (0 < n \<longrightarrow>
    simulate gauss (Fin p) (Fin 0) (Fin 0) days n g =
      Inr (\<lparr> p5 = replicate days (Fin p), p50 = replicate days (Fin p),
             p95 = replicate days (Fin p) \<rparr>,
           snd (draw_n gauss (n * days) g)))"
proof -
  have sc: "\<not> flt (Fin 0) (Fin 0)" by simp
  have len: "length (fst (draw_n gauss (n * days) g)) = n * days" by simp
  have paths: "all_paths gauss (Fin p) (Fin 0) (Fin 0) days n g =
     Inr (replicate n (replicate days (Fin p)), snd (draw_n gauss (n * days) g))"
    by (simp only: all_paths_draws [OF sc] paths_from_draws_zero [OF len])
  have "simulate gauss (Fin p) (Fin 0) (Fin 0) days n g =
      Inr (\<lparr> p5 = replicate days (Fin p), p50 = replicate days (Fin p),
             p95 = replicate days (Fin p) \<rparr>,
           snd (draw_n gauss (n * days) g))" if "0 < n"
    by (simp add: simulate_def paths bands_of_def percentile_axis0_replicate [OF that])
  with paths show ?thesis by blast
qed

text \<open>The theorem with two paths of three days and a generator that counts.\<close>

theorem zero_mean_zero_volatility_witness:
  "(0::nat) < 2 \<and>
   all_paths (\<lambda>k. (real k, Suc k)) (Fin 105) (Fin 0) (Fin 0) 3 2 (0::nat) =
     Inr ([[Fin 105, Fin 105, Fin 105], [Fin 105, Fin 105, Fin 105]], 6) \<and>
   simulate (\<lambda>k. (real k, Suc k)) (Fin 105) (Fin 0) (Fin 0) 3 2 (0::nat) =
     Inr (\<lparr> p5 = [Fin 105, Fin 105, Fin 105], p50 = [Fin 105, Fin 105, Fin 105],
            p95 = [Fin 105, Fin 105, Fin 105] \<rparr>, 6)"
proof -
  have d: "snd (draw_n (\<lambda>k. (real k, Suc k)) (2 * 3) (0::nat)) = 6"
    by (simp add: numeral_eq_Suc)
  have h: "(0::nat) < 2" by simp
  from zero_mean_zero_volatility [of "\<lambda>k. (real k, Suc k)" 105 3 2 0] h
  show ?thesis unfolding d by (simp add: numeral_eq_Suc)
qed

section \<open>A single observation\<close>

lemma forecast_no_error:
  assumes "\<not> flt sigma (Fin 0)"
  shows "\<not> isl (forecast gauss lp mu sigma n hs g)"
proof (induction hs arbitrary: g)
  case Nil
  then show ?case by simp
next
  case (Cons days hs)
  let ?g1 = "snd (draw_n gauss (n * days) g)"
  from Cons.IH [of ?g1] obtain r where "forecast gauss lp mu sigma n hs ?g1 = Inr r"
    by (cases "forecast gauss lp mu sigma n hs ?g1") auto
  then show ?case
    by (simp add: simulate_draws [OF assms] split: prod.split)
qed

lemma fpow_NaN: "0 < n \<Longrightarrow> fpow NaN n = NaN"
  by (cases n) simp_all

lemma returns_single: "returns [(i, v)] = []"
  by (simp add: returns_def dropna_def pct_change_def shift1_def labels_def vals_def)

lemma core_risk_metrics_single:
  "core_risk_metrics [(i, Fin p)] =
     \<lparr> rm_annual_return = NaN, rm_annual_volatility = NaN,
       rm_max_drawdown = (if p = 0 then NaN else Fin 0), rm_down_days_pct = NaN \<rparr>"
  by (simp add: core_risk_metrics_def returns_single annual_return_def annual_volatility_def
      down_days_pct_def max_drawdown_def drawdown_def cummax_def fmax_def series_min_def
      mean_def std_def fsum_def vals_def labels_def fpow_NaN)

lemma core_risk_metrics_empty:
  "core_risk_metrics [] =
     \<lparr> rm_annual_return = NaN, rm_annual_volatility = NaN,
       rm_max_drawdown = NaN, rm_down_days_pct = NaN \<rparr>"
  by (simp add: core_risk_metrics_def returns_def dropna_def pct_change_def shift1_def
      annual_return_def annual_volatility_def
      down_days_pct_def max_drawdown_def drawdown_def cummax_def series_min_def
      mean_def std_def fsum_def vals_def labels_def fpow_NaN)

lemma analysis_single:
  "\<not> isl (analysis gauss n [(i, Fin p)] g) \<and>
   metrics (fst (projr (analysis gauss n [(i, Fin p)] g))) = core_risk_metrics [(i, Fin p)]"
proof -
  have sc: "\<not> flt (vol (returns [(i, Fin p)])) (Fin 0)"
    by (simp add: returns_single vol_def std_def vals_def)
  let ?f = "forecast gauss (Fin p) (mean_return (returns [(i, Fin p)]))
              (vol (returns [(i, Fin p)])) n forecast_horizons g"
  have "\<not> isl ?f" by (rule forecast_no_error [OF sc])
  then obtain bs g1 where f: "?f = Inr (bs, g1)"
    by (cases ?f) auto
  show ?thesis
    by (simp add: analysis_def last_price_def Let_def f)
qed

text \<open>
  Claim C6, as the code has it. Nothing checks the number of rows. On a price series
  of a single observation, for every number of simulations the slider allows, none of the computations from line 94 to the last projection
  of line 201 raises: the return series is empty, and the annualized return, the
  annualized volatility and the downside frequency are NaN (the maximum drawdown is 0,
  or NaN for a price of zero). On an empty price series the four metrics are NaN as
  well.
\<close>

theorem single_observation_gives_nan:
  fixes i :: 'i
  assumes "100 \<le> n" and "n \<le> 5000"
  shows "returns [(i, Fin p)] = [] \<and>
   \<not> isl (analysis gauss n [(i, Fin p)] g) \<and>
   metrics (fst (projr (analysis gauss n [(i, Fin p)] g))) =
     \<lparr> rm_annual_return = NaN, rm_annual_volatility = NaN,
       rm_max_drawdown = (if p = 0 then NaN else Fin 0), rm_down_days_pct = NaN \<rparr> \<and>
   core_risk_metrics ([] :: ('i \<times> fl) list) =
     \<lparr> rm_annual_return = NaN, rm_annual_volatility = NaN,
       rm_max_drawdown = NaN, rm_down_days_pct = NaN \<rparr>"
  using analysis_single [of gauss n i p g]
  by (simp only: returns_single core_risk_metrics_single core_risk_metrics_empty simp_thms)

text \<open>The theorem on one observation at 100, with the slider at its default of 1000
  simulations and a generator that counts.\<close>

theorem single_observation_gives_nan_witness:
  "(100::nat) \<le> 1000 \<and> (1000::nat) \<le> 5000 \<and>
   returns [(0::nat, Fin 100)] = [] \<and>
   \<not> isl (analysis (\<lambda>k. (real k, Suc k)) 1000 [(0::nat, Fin 100)] (0::nat)) \<and>
   metrics (fst (projr (analysis (\<lambda>k. (real k, Suc k)) 1000 [(0::nat, Fin 100)] (0::nat)))) =
     \<lparr> rm_annual_return = NaN, rm_annual_volatility = NaN,
       rm_max_drawdown = Fin 0, rm_down_days_pct = NaN \<rparr>"
proof -
  have h1: "(100::nat) \<le> 1000" and h2: "(1000::nat) \<le> 5000" by simp_all
  from single_observation_gives_nan [OF h1 h2, where i = "0::nat" and p = 100
      and gauss = "\<lambda>k. (real k, Suc k)" and g = "0::nat"]
  show ?thesis by simp
qed

text \<open>
  The spec's wording, that an error is raised before any metric is computed, fails:
  with one observation at 100 and 100 simulations the computations run to the last
  projection without an error, and the annualized return and volatility are NaN.
\<close>

theorem single_observation_counterexample:
  "\<not> isl (analysis (\<lambda>k. (real k, Suc k)) 100 [(0::nat, Fin 100)] (0::nat)) \<and>
   rm_annual_return
     (metrics (fst (projr (analysis (\<lambda>k. (real k, Suc k)) 100 [(0::nat, Fin 100)] (0::nat)))))
     = NaN \<and>
   rm_annual_volatility
     (metrics (fst (projr (analysis (\<lambda>k. (real k, Suc k)) 100 [(0::nat, Fin 100)] (0::nat)))))
     = NaN"
  using analysis_single [of "\<lambda>k. (real k, Suc k)" 100 "0::nat" 100 "0::nat"]
  by (simp add: core_risk_metrics_single)

section \<open>A constant price over 254 days\<close>


lemma fsum_zeros: "foldl fadd (Fin 0) (replicate n (Fin 0)) = Fin 0"
  by (induction n) simp_all

lemma std_zeros:
  assumes "2 \<le> n"
  shows "std (replicate n (Fin 0)) = Fin 0"
proof -
  have m: "replicate n (Fin 0) = map Fin (replicate n 0)" by simp
  have nn: "notna (replicate n (Fin 0)) = replicate n (Fin 0)"
    unfolding m by (rule notna_Fin)
  have n1: "\<not> n \<le> 1" and n0: "real n \<noteq> 0" and n2: "real (n - 1) \<noteq> 0"
    using assms by simp_all
  show ?thesis
    using n1 n0 n2
    by (simp add: std_def nn Let_def fsum_def fsum_zeros map_replicate_const comp_def)
qed

lemma returns_constant:
  "returns (fin_series (map (\<lambda>k. (k, 1)) [0..<Suc n])) = map (\<lambda>k. (k, Fin 0)) [1..<Suc n]"
proof -
  let ?S = "map (\<lambda>k. (k, 1::real)) [0..<Suc n]"
  let ?pc = "pct_change (fin_series ?S)"
  have len: "length ?pc = Suc n" by simp
  have nth: "?pc ! k = (k, if k = 0 then NaN else Fin 0)" if "k < Suc n" for k
  proof -
    have k: "k < length (fin_series ?S)" using that by simp
    have a: "fin_series ?S ! k = (k, Fin 1)"
      using that by (simp add: fin_series_nth del: upt_Suc)
    show ?thesis
    proof (cases k)
      case 0
      with pct_change_nth [OF k] a show ?thesis by simp
    next
      case (Suc j)
      then have "j < Suc n" using that by simp
      then have b: "fin_series ?S ! j = (j, Fin 1)"
        by (simp add: fin_series_nth del: upt_Suc)
      from pct_change_nth [OF k] a b Suc show ?thesis by simp
    qed
  qed
  have all: "?pc = map (\<lambda>k. (k, if k = 0 then NaN else Fin 0)) [0..<Suc n]"
    by (rule nth_equalityI) (simp_all add: nth del: upt_Suc)
  have "filter (\<lambda>(i, v). \<not> isnan v) (map (\<lambda>k. (k, if k = 0 then NaN else Fin 0)) [0..<Suc n]) =
        map (\<lambda>k. (k, if k = 0 then NaN else Fin 0)) (filter (\<lambda>k. k \<noteq> 0) [0..<Suc n])"
    by (simp add: filter_map comp_def del: upt_Suc cong: filter_cong)
  also have "filter (\<lambda>k. k \<noteq> 0) [0..<Suc n] = [1..<Suc n]"
  proof -
    have "[0..<Suc n] = 0 # [1..<Suc n]" by (simp add: upt_rec del: upt_Suc)
    moreover have "filter (\<lambda>k. k \<noteq> 0) [1..<Suc n] = [1..<Suc n]"
      by (rule filter_True) auto
    ultimately show ?thesis by (simp del: upt_Suc)
  qed
  also have "map (\<lambda>k. (k, if k = 0 then NaN else Fin 0)) [1..<Suc n] =
             map (\<lambda>k. (k, Fin 0)) [1..<Suc n]"
    by (rule map_cong) auto
  finally show ?thesis
    by (simp only: returns_def dropna_def all)
qed

lemma rolling_std_zeros:
  assumes "2 \<le> w" and "w \<le> n"
  shows "rolling_std w (replicate n (Fin 0)) = replicate (w - 1) NaN @ replicate (n - (w - 1)) (Fin 0)"
proof (rule nth_equalityI)
  show "length (rolling_std w (replicate n (Fin 0))) =
        length (replicate (w - 1) NaN @ replicate (n - (w - 1)) (Fin 0))"
    using assms by simp
next
  fix i assume "i < length (rolling_std w (replicate n (Fin 0)))"
  then have i: "i < n" by simp
  show "rolling_std w (replicate n (Fin 0)) ! i =
        (replicate (w - 1) NaN @ replicate (n - (w - 1)) (Fin 0)) ! i"
  proof (cases "Suc i < w")
    case True
    then have "i < w - 1" by simp
    then show ?thesis using i True by (simp add: rolling_std_def nth_append)
  next
    case False
    then have "min w (n - (Suc i - w)) = w" using i assms by simp
    then have win: "take w (drop (Suc i - w) (replicate n (Fin 0))) = replicate w (Fin 0)"
      by simp
    have fin: "list_all isfinite (replicate w (Fin 0))" by (simp add: list_all_iff)
    have lhs: "rolling_std w (replicate n (Fin 0)) ! i = Fin 0"
      using False i assms by (simp add: rolling_std_def win window_std_def fin std_zeros)
    have ge: "\<not> i < w - 1" using False by simp
    have "i - (w - 1) < n - (w - 1)" using False i assms by simp
    then have "replicate (n - (w - 1)) (Fin 0) ! (i - (w - 1)) = Fin 0" by (rule nth_replicate)
    then have "(replicate (w - 1) NaN @ replicate (n - (w - 1)) (Fin 0)) ! i = Fin 0"
      using ge by (simp only: nth_append length_replicate if_False)
    with lhs show ?thesis by simp
  qed
qed

lemma rolling_vol_constant:
  assumes "252 \<le> n"
  shows "vals (rolling_vol (map (\<lambda>k. (k, Fin 0)) [1..<Suc n])) =
         replicate 251 NaN @ replicate (n - 251) (Fin 0)"
proof -
  have v: "vals (map (\<lambda>k. (k, Fin 0)) [1..<Suc n]) = replicate n (Fin 0)"
    by (simp add: vals_def comp_def map_replicate_const del: upt_Suc)
  have w: "(2::nat) \<le> 252" by simp
  have "rolling_std 252 (replicate n (Fin 0)) =
        replicate (252 - 1) NaN @ replicate (n - (252 - 1)) (Fin 0)"
    using rolling_std_zeros [OF w assms] .
  then have rs: "rolling_std 252 (replicate n (Fin 0)) =
        replicate 251 NaN @ replicate (n - 251) (Fin 0)"
    by simp
  have "vals (rolling_vol (map (\<lambda>k. (k, Fin 0)) [1..<Suc n])) =
        map (\<lambda>v. fmul v (Fin (sqrt 252))) (replicate 251 NaN @ replicate (n - 251) (Fin 0))"
    by (simp only: vals_rolling_vol v rs)
  also have "\<dots> = replicate 251 NaN @ replicate (n - 251) (Fin 0)"
    by simp
  finally show ?thesis .
qed

text \<open>The theorem on the regime counts, for a price that stays at 1 for 254 days:
  of the 253 returns the last two have a rolling volatility, and the counts of the
  regime statistics sum to 2.\<close>

theorem regime_stats_counts_witness:
  "sum_list (map (\<lambda>g. agg_count (snd g))
     (regime_stats (returns (fin_series (map (\<lambda>k. (k, 1)) [0..<254]))))) = 2"
proof -
  have n: "(254::nat) = Suc 253" by simp
  have r: "returns (fin_series (map (\<lambda>k. (k, 1)) [0..<254])) = map (\<lambda>k. (k, Fin 0)) [1..<Suc 253]"
    unfolding n by (rule returns_constant)
  have a: "vals (rolling_vol (map (\<lambda>k::nat. (k, Fin 0)) [1..<Suc 253])) =
           replicate 251 NaN @ replicate (253 - 251) (Fin 0)"
    by (rule rolling_vol_constant) simp
  have "length (filter (\<lambda>v. \<not> isnan v)
          (vals (rolling_vol (map (\<lambda>k::nat. (k, Fin 0)) [1..<Suc 253])))) = 2"
    unfolding a by simp
  with regime_stats_counts [of "fin_series (map (\<lambda>k. (k, 1)) [0..<254])"]
  show ?thesis by (simp only: r)
qed

end
